theory Spec2Isabelle
  imports Complex_Main "HOL-Library.Multiset"
begin

section \<open>The audio transcription pipeline of main\_remote.py\<close>

text \<open>
  The development embeds \<^verbatim>\<open>AudioTranscriber\<close> (src/main\_remote.py): the validation of the
  input path, the chunk computation, the per-chunk call \<^verbatim>\<open>process_chunk\<close> with its
  \<^verbatim>\<open>try / except / finally\<close>, the collection of the results in completion order, and
  the sorting, joining and writing of the transcript.

  Python's unbounded integers are \<open>int\<close>. An exception is a value of \<open>exn\<close>, and a
  function that may raise returns \<open>exn + 'a\<close> with \<open>Inl\<close> the exception raised.
\<close>

subsection \<open>Exceptions\<close>

text \<open>
  \<open>FileNotFoundError\<close> and \<open>ValueError\<close> are raised by the source itself
  (\<^verbatim>\<open>validate_audio_file\<close>; \<open>ValueError\<close> is also what \<^verbatim>\<open>ThreadPoolExecutor\<close> raises for
  a worker count below one). \<open>ZeroDivisionError\<close> is raised by Python's \<^verbatim>\<open>//\<close>. The
  other four stand for what the libraries raise: the decoder, the mp3 export, the
  transcription service and \<^verbatim>\<open>Path.unlink\<close>.
\<close>

datatype exn =
    FileNotFoundError
  | ValueError
  | ZeroDivisionError
  | DecodeError
  | ExportError
  | TranscriptionServiceError
  | UnlinkError

subsection \<open>The chunk computation (transcribe\_file, lines 180--185)\<close>

text \<open>
  An audio segment is the list of its milliseconds: \<^verbatim>\<open>len(full_audio)\<close> is the length
  of the list, as an \<open>int\<close>.
\<close>

definition len :: "'a list \<Rightarrow> int" where
  "len xs = int (length xs)"

text \<open>
  \<^verbatim>\<open>full_audio[a:b]\<close>, the slice of pydub's \<^verbatim>\<open>AudioSegment.__getitem__\<close> at millisecond
  resolution: both bounds are first cut at the length of the segment, a negative position
  counts from the end, and the data between the two positions is returned.
\<close>

definition parse_position :: "'a list \<Rightarrow> int \<Rightarrow> int" where
  "parse_position xs val = (if val < 0 then len xs - abs val else val)"

definition getitem_slice :: "'a list \<Rightarrow> int \<Rightarrow> int \<Rightarrow> 'a list" where
  "getitem_slice xs a b =
     (let start = min a (len xs);
          end' = min b (len xs);
          start = parse_position xs start;
          end' = parse_position xs end'
      in drop (nat start) (take (nat end') xs))"

text \<open>
  \<^verbatim>\<open>num_chunks = len(full_audio) // L + (1 if len(full_audio) % L > 0 else 0)\<close>.
  Python's \<^verbatim>\<open>//\<close> and \<^verbatim>\<open>%\<close> round towards minus infinity, as \<open>div\<close> and \<open>mod\<close> on
  \<open>int\<close> do, and raise \<open>ZeroDivisionError\<close> for a zero divisor.
\<close>

definition num_chunks :: "int \<Rightarrow> int \<Rightarrow> exn + int" where
  "num_chunks D L =
     (if L = 0 then Inl ZeroDivisionError
      else Inr (D div L + (if D mod L > 0 then 1 else 0)))"

text \<open>\<^verbatim>\<open>range(n)\<close> for an integer \<open>n\<close>: empty when \<open>n \<le> 0\<close>.\<close>

definition py_range :: "int \<Rightarrow> nat list" where
  "py_range n = [0..<nat n]"

text \<open>
  \<^verbatim>\<open>chunks = [full_audio[i * L:(i + 1) * L] for i in range(num_chunks)]\<close>
\<close>

definition calculate_chunks :: "'a list \<Rightarrow> int \<Rightarrow> exn + 'a list list" where
  "calculate_chunks full_audio L =
     (case num_chunks (len full_audio) L of
        Inl e \<Rightarrow> Inl e
      | Inr n \<Rightarrow>
          Inr (map (\<lambda>i. getitem_slice full_audio (int i * L) ((int i + 1) * L)) (py_range n)))"

subsection \<open>Paths\<close>

text \<open>
  A \<^verbatim>\<open>pathlib.Path\<close> (on POSIX) is the list of its components, after its root \<open>/\<close> or
  \<open>//\<close> when it is absolute. \<^verbatim>\<open>p / s\<close> parses the string \<open>s\<close>: it is split at every
  \<open>/\<close>, and the empty pieces and the pieces \<open>.\<close> are dropped. The components found are
  appended to those of \<open>p\<close>, unless \<open>s\<close> starts with \<open>/\<close>: then the result is \<open>s\<close> alone,
  with its root. \<^verbatim>\<open>name\<close> is the last component, empty for a path that has none.
  \<^verbatim>\<open>suffix\<close> and \<^verbatim>\<open>stem\<close> cut the name at its last dot, provided that dot is neither
  its first nor its last character.
\<close>

type_synonym path = "string list"

text \<open>\<^verbatim>\<open>str.split(sep)\<close> for a separator of one character.\<close>

fun split :: "char \<Rightarrow> string \<Rightarrow> string list" where
  "split sep [] = [[]]"
| "split sep (x # xs) =
     (if x = sep then [] # split sep xs
      else (case split sep xs of
              [] \<Rightarrow> [[x]]
            | piece # pieces \<Rightarrow> (x # piece) # pieces))"

definition parts :: "string \<Rightarrow> string list" where
  "parts s = filter (\<lambda>x. x \<noteq> [] \<and> x \<noteq> ''.'') (split (CHR ''/'') s)"

text \<open>Two leading slashes, and no more than two, are a root of their own.\<close>

definition root :: "string \<Rightarrow> string" where
  "root s = (if take 2 s = ''//'' \<and> take 3 s \<noteq> ''///'' then ''//'' else ''/'')"

definition joinpath :: "path \<Rightarrow> string \<Rightarrow> path" where
  "joinpath p s = (if take 1 s = ''/'' then root s # parts s else p @ parts s)"

definition name :: "path \<Rightarrow> string" where
  "name p =
     (if p = [] \<or> last p = ''/'' \<or> last p = ''//'' then [] else last p)"

text \<open>\<^verbatim>\<open>str.rfind\<close>: the highest index of the character, or \<open>-1\<close>.\<close>

definition rfind :: "char \<Rightarrow> string \<Rightarrow> int" where
  "rfind c s =
     (case filter (\<lambda>i. s ! i = c) (rev [0..<length s]) of
        [] \<Rightarrow> - 1
      | i # _ \<Rightarrow> int i)"

definition suffix :: "path \<Rightarrow> string" where
  "suffix p =
     (let nm = name p; i = rfind (CHR ''.'') nm
      in if 0 < i \<and> i < len nm - 1 then drop (nat i) nm else [])"

definition stem :: "path \<Rightarrow> string" where
  "stem p =
     (let nm = name p; i = rfind (CHR ''.'') nm
      in if 0 < i \<and> i < len nm - 1 then take (nat i) nm else nm)"

text \<open>
  \<^verbatim>\<open>str.lower\<close> on the letters \<open>A\<close> to \<open>Z\<close>. No character outside ASCII has a lower
  case that occurs in one of the supported suffixes, so the membership test of
  \<^verbatim>\<open>validate_audio_file\<close> is the same on bytes.
\<close>

definition lower_char :: "char \<Rightarrow> char" where
  "lower_char c =
     (if 65 \<le> (of_char c :: nat) \<and> (of_char c :: nat) \<le> 90
      then char_of ((of_char c :: nat) + 32) else c)"

definition lower :: "string \<Rightarrow> string" where
  "lower s = map lower_char s"

text \<open>\<^verbatim>\<open>str(n)\<close> for an integer: its decimal digits, after a minus sign when negative.\<close>

fun digits :: "nat \<Rightarrow> string" where
  "digits n =
     (if n < 10 then [char_of (48 + n)]
      else digits (n div 10) @ [char_of (48 + n mod 10)])"

declare digits.simps [simp del]

definition str :: "int \<Rightarrow> string" where
  "str i = (if i < 0 then CHR ''-'' # digits (nat (- i)) else digits (nat i))"

subsection \<open>The file system and the outside world\<close>

text \<open>
  The state is the content of every existing path, with the list of the calls made to
  the decoder, the exporter, the transcription service and the file system, in order.
\<close>

datatype event =
    Decode path
  | Export path
  | Transcribe nat
  | Unlink path
  | Write path

record world =
  files :: "path \<rightharpoonup> string"
  trace :: "event list"

definition log_event :: "event \<Rightarrow> world \<Rightarrow> world" where
  "log_event ev w = w\<lparr>trace := trace w @ [ev]\<rparr>"

text \<open>
  What the libraries answer is a parameter of the model. \<open>from_file\<close> is the decoder on
  the content of a file. For the call on chunk \<open>i\<close>: \<open>time_now i\<close> is the value of
  \<^verbatim>\<open>int(time.time())\<close>, \<open>export_mp3 i\<close> is the outcome of \<^verbatim>\<open>chunk.export\<close> (the bytes
  written, or a failure that may leave a file behind), \<open>transcriptions_create i\<close> is the
  answer of the service to the exported bytes. \<open>unlink_fails p\<close> says that
  \<^verbatim>\<open>Path.unlink\<close> raises on \<open>p\<close>, leaving the file.
\<close>

datatype export_result =
    Exported string
  | ExportFailed exn "string option"

record 'a env =
  from_file :: "string \<Rightarrow> exn + 'a list"
  time_now :: "nat \<Rightarrow> int"
  export_mp3 :: "nat \<Rightarrow> 'a list \<Rightarrow> export_result"
  transcriptions_create :: "nat \<Rightarrow> string \<Rightarrow> exn + string"
  unlink_fails :: "path \<Rightarrow> bool"

subsection \<open>AudioTranscriber\<close>

record AudioTranscriber =
  input_path :: path
  output_path :: path
  chunk_length_ms :: int
  max_workers :: int

text \<open>
  \<^verbatim>\<open>__init__\<close> stores its arguments, with the chunk length converted to milliseconds. It
  checks none of them. (The two directories it creates hold no content and are not part of
  the state.)
\<close>

definition init :: "path \<Rightarrow> path \<Rightarrow> int \<Rightarrow> int \<Rightarrow> AudioTranscriber" where
  "init input_path' output_path' chunk_length_minutes max_workers' =
     \<lparr>input_path = input_path',
      output_path = output_path',
      chunk_length_ms = chunk_length_minutes * 60 * 1000,
      max_workers = max_workers'\<rparr>"

definition supported_formats :: "string set" where
  "supported_formats = {''.mp3'', ''.wav'', ''.m4a'', ''.ogg'', ''.flac''}"

definition validate_audio_file :: "world \<Rightarrow> path \<Rightarrow> exn + bool" where
  "validate_audio_file w filepath =
     (if files w filepath = None then Inl FileNotFoundError
      else if lower (suffix filepath) \<notin> supported_formats then Inl ValueError
      else Inr True)"

subsection \<open>process\_chunk\<close>

definition temp_filename :: "nat \<Rightarrow> int \<Rightarrow> string" where
  "temp_filename chunk_index t =
     ''temp_chunk_'' @ str (int chunk_index) @ ''_'' @ str t @ ''.mp3''"

definition temp_filepath :: "AudioTranscriber \<Rightarrow> 'a env \<Rightarrow> nat \<Rightarrow> path" where
  "temp_filepath self env chunk_index =
     joinpath (output_path self) (temp_filename chunk_index (time_now env chunk_index))"

text \<open>
  The body of the \<^verbatim>\<open>try\<close>: export the chunk to the temporary file, open it and send it
  to the service. The \<^verbatim>\<open>except\<close> clause logs and re-raises, so the outcome of the body is
  also the outcome of \<^verbatim>\<open>try / except\<close>.
\<close>

definition try_body ::
  "AudioTranscriber \<Rightarrow> 'a env \<Rightarrow> world \<Rightarrow> 'a list \<Rightarrow> nat \<Rightarrow> (exn + string) \<times> world" where
  "try_body self env w chunk chunk_index =
     (let p = temp_filepath self env chunk_index;
          w1 = log_event (Export p) w
      in case export_mp3 env chunk_index chunk of
           ExportFailed e partial \<Rightarrow>
             (Inl e,
              case partial of
                None \<Rightarrow> w1
              | Some bytes \<Rightarrow> w1\<lparr>files := (files w1)(p \<mapsto> bytes)\<rparr>)
         | Exported bytes \<Rightarrow>
             (let w2 = w1\<lparr>files := (files w1)(p \<mapsto> bytes)\<rparr>
              in (transcriptions_create env chunk_index bytes,
                  log_event (Transcribe chunk_index) w2)))"

text \<open>
  The \<^verbatim>\<open>finally\<close> clause runs after the body, whatever its outcome \<open>r\<close>. When
  \<^verbatim>\<open>unlink\<close> raises there, that exception is what leaves the function: Python drops
  the return value or the exception that was under way.
\<close>

definition finally_cleanup ::
  "'a env \<Rightarrow> path \<Rightarrow> (exn + string) \<times> world \<Rightarrow> (exn + string) \<times> world" where
  "finally_cleanup env p rw =
     (case rw of (r, w) \<Rightarrow>
        if files w p \<noteq> None then
          (if unlink_fails env p then (Inl UnlinkError, log_event (Unlink p) w)
           else (r, log_event (Unlink p) (w\<lparr>files := (files w)(p := None)\<rparr>)))
        else (r, w))"

definition process_chunk ::
  "AudioTranscriber \<Rightarrow> 'a env \<Rightarrow> world \<Rightarrow> 'a list \<Rightarrow> nat \<Rightarrow> (exn + string) \<times> world" where
  "process_chunk self env w chunk chunk_index =
     finally_cleanup env (temp_filepath self env chunk_index)
       (try_body self env w chunk chunk_index)"

subsection \<open>transcribe\_file\<close>

text \<open>
  \<^verbatim>\<open>AudioSegment.from_file(str(input_filepath))\<close>: the decoder runs on the content of
  the file.
\<close>

definition load_audio :: "'a env \<Rightarrow> world \<Rightarrow> path \<Rightarrow> (exn + 'a list) \<times> world" where
  "load_audio env w p =
     (case files w p of
        None \<Rightarrow> (Inl FileNotFoundError, w)
      | Some content \<Rightarrow> (from_file env content, log_event (Decode p) w))"

text \<open>
  The executor. Every chunk is submitted with its index, and every submitted call runs
  to its end: leaving the \<^verbatim>\<open>with\<close> block waits for all of them, also when the loop
  below has raised. The calls of different chunks work on different temporary files.
  \<open>order\<close> is the order in which the calls complete, a permutation of the indices;
  \<^verbatim>\<open>as_completed\<close> yields the futures in that order.
\<close>

definition as_completed :: "nat list \<Rightarrow> 'b list \<Rightarrow> (nat \<times> 'b) list" where
  "as_completed order chunks =
     map (\<lambda>k. (k, chunks ! k)) (filter (\<lambda>k. k < length chunks) order)"

fun run_pool ::
  "AudioTranscriber \<Rightarrow> 'a env \<Rightarrow> world \<Rightarrow> (nat \<times> 'a list) list
     \<Rightarrow> (nat \<times> (exn + string)) list \<times> world" where
  "run_pool self env w [] = ([], w)"
| "run_pool self env w ((i, chunk) # rest) =
     (case process_chunk self env w chunk i of (r, w1) \<Rightarrow>
        (case run_pool self env w1 rest of (rs, w2) \<Rightarrow> ((i, r) # rs, w2)))"

text \<open>
  The loop over the completed futures: \<^verbatim>\<open>future.result()\<close> returns the text, which is
  appended with its index, or raises what the call raised, which is logged and raised
  again.
\<close>

fun collect ::
  "(nat \<times> (exn + string)) list \<Rightarrow> (nat \<times> string) list \<Rightarrow> exn + (nat \<times> string) list" where
  "collect [] transcriptions = Inr transcriptions"
| "collect ((chunk_idx, Inl e) # rest) transcriptions = Inl e"
| "collect ((chunk_idx, Inr transcription) # rest) transcriptions =
     collect rest (transcriptions @ [(chunk_idx, transcription)])"

text \<open>\<^verbatim>\<open>sep.join(texts)\<close>\<close>

fun join :: "string \<Rightarrow> string list \<Rightarrow> string" where
  "join sep [] = []"
| "join sep [t] = t"
| "join sep (t # u # ts) = t @ sep @ join sep (u # ts)"

text \<open>
  Lines 208--210: the stable sort by chunk index, and the texts joined with a newline.
\<close>

definition combine :: "(nat \<times> string) list \<Rightarrow> string" where
  "combine transcriptions =
     join [CHR 0x0A] (map snd (sort_key fst transcriptions))"

definition output_filepath :: "AudioTranscriber \<Rightarrow> string \<Rightarrow> path" where
  "output_filepath self input_filename =
     joinpath (output_path self)
       (stem (joinpath (input_path self) input_filename) @ ''.txt'')"

definition transcribe_file ::
  "AudioTranscriber \<Rightarrow> 'a env \<Rightarrow> nat list \<Rightarrow> world \<Rightarrow> string \<Rightarrow> (exn + path) \<times> world" where
  "transcribe_file self env order w input_filename =
     (let input_filepath = joinpath (input_path self) input_filename;
          out = output_filepath self input_filename
      in case validate_audio_file w input_filepath of
           Inl e \<Rightarrow> (Inl e, w)
         | Inr _ \<Rightarrow>
        (case load_audio env w input_filepath of
           (Inl e, w1) \<Rightarrow> (Inl e, w1)
         | (Inr full_audio, w1) \<Rightarrow>
        (case calculate_chunks full_audio (chunk_length_ms self) of
           Inl e \<Rightarrow> (Inl e, w1)
         | Inr chunks \<Rightarrow>
        if max_workers self \<le> 0 then (Inl ValueError, w1)
        else
        (case run_pool self env w1 (as_completed order chunks) of (results, w2) \<Rightarrow>
        (case collect results [] of
           Inl e \<Rightarrow> (Inl e, w2)
         | Inr transcriptions \<Rightarrow>
             (Inr out,
              log_event (Write out)
                (w2\<lparr>files := (files w2)(out \<mapsto> combine transcriptions)\<rparr>)))))))"

subsection \<open>A small instance\<close>

text \<open>
  A transcriber with chunks of two milliseconds, an input file of five milliseconds, and
  libraries that answer as follows: the decoder yields one millisecond per byte, every
  export succeeds, the service fails on the chunk \<open>bad\<close> only, and \<^verbatim>\<open>unlink\<close> raises
  when \<open>locked\<close> is set.
\<close>

definition example_self :: AudioTranscriber where
  "example_self =
     \<lparr>input_path = [''in''], output_path = [''out''], chunk_length_ms = 2, max_workers = 3\<rparr>"

definition example_env :: "nat \<Rightarrow> bool \<Rightarrow> nat env" where
  "example_env bad locked =
     \<lparr>from_file = (\<lambda>content. Inr (map of_char content)),
      time_now = (\<lambda>i. 17),
      export_mp3 = (\<lambda>i chunk. Exported ''mp3''),
      transcriptions_create =
        (\<lambda>i bytes. if i = bad then Inl TranscriptionServiceError else Inr (digits i)),
      unlink_fails = (\<lambda>p. locked)\<rparr>"

definition example_world :: "string \<Rightarrow> string \<Rightarrow> world" where
  "example_world input_filename content =
     \<lparr>files = [[''in'', input_filename] \<mapsto> content], trace = []\<rparr>"

section \<open>The chunk computation\<close>

text \<open>
  For a positive chunk length the chunk count is the ceiling of the quotient, computed by
  the source with \<^verbatim>\<open>//\<close> and \<^verbatim>\<open>%\<close>.
\<close>

lemma num_chunks_ceiling:
  assumes "0 < L"
  shows "num_chunks D L = Inr \<lceil>real_of_int D / real_of_int L\<rceil>"
proof -
  have c: "\<lceil>real_of_int D / real_of_int L\<rceil> = - ((- D) div L)"
    by (simp add: ceiling_divide_eq_div)
  have "D div L + (if D mod L > 0 then 1 else 0) = - ((- D) div L)"
  proof (cases "D mod L = 0")
    case True
    then have "L dvd D" by auto
    then show ?thesis using True by (simp add: dvd_neg_div)
  next
    case False
    have "0 \<le> D mod L" using assms by simp
    then have p: "0 < D mod L" using False by linarith
    have "(- D) div L = - (D div L) - 1"
      using False assms by (simp add: zdiv_zminus1_eq_if)
    then show ?thesis using p by simp
  qed
  then show ?thesis using assms c by (simp add: num_chunks_def)
qed

lemma getitem_slice_nonneg:
  assumes "0 \<le> a" "a \<le> b"
  shows "getitem_slice xs a b = drop (nat a) (take (nat b) xs)"
proof -
  have l: "0 \<le> len xs" by (simp add: len_def)
  have t: "take (nat (min b (len xs))) xs = take (nat b) xs"
    by (cases "b \<le> len xs") (simp_all add: min_def len_def)
  have d: "drop (nat (min a (len xs))) (take (nat b) xs) = drop (nat a) (take (nat b) xs)"
    using assms by (cases "a \<le> len xs") (auto simp add: len_def)
  have pa: "parse_position xs (min a (len xs)) = min a (len xs)"
    and pb: "parse_position xs (min b (len xs)) = min b (len xs)"
    using assms l by (auto simp add: parse_position_def min_def)
  show ?thesis
    unfolding getitem_slice_def Let_def pa pb t d ..
qed

lemma drop_take_nths: "drop a (take b xs) = map (\<lambda>j. xs ! j) [a ..< min b (length xs)]"
proof (rule nth_equalityI)
  show "length (drop a (take b xs)) = length (map (\<lambda>j. xs ! j) [a ..< min b (length xs)])"
    by (simp add: min.commute)
next
  fix i
  assume "i < length (drop a (take b xs))"
  then have i: "i < min b (length xs) - a" by (simp add: min.commute)
  then have j: "a + i < min b (length xs)" by linarith
  have "drop a (take b xs) ! i = xs ! (a + i)" using j by simp
  moreover have "[a ..< min b (length xs)] ! i = a + i" using j by simp
  moreover have "i < length [a ..< min b (length xs)]" using i by simp
  ultimately show "drop a (take b xs) ! i = map (\<lambda>j. xs ! j) [a ..< min b (length xs)] ! i"
    by (simp only: nth_map)
qed

lemma concat_slices:
  "concat (map (\<lambda>i. drop (i * l) (take (Suc i * l) xs)) [0..<n]) = take (n * l) xs"
proof (induction n)
  case 0
  show ?case by simp
next
  case (Suc n)
  have "take (n * l + l) xs = take (n * l) xs @ drop (n * l) (take (n * l + l) xs)"
    by (metis append_take_drop_id take_take min.absorb1 le_add1)
  then show ?case using Suc by (simp add: add.commute)
qed


text \<open>
  Claim C1. For an audio segment of duration \<open>D = len xs\<close> and a positive chunk length
  \<open>L\<close>, the chunk computation of \<^verbatim>\<open>transcribe_file\<close> raises nothing and yields
  \<open>N = \<lceil>D / L\<rceil>\<close> chunks, indexed from \<open>0\<close> to \<open>N - 1\<close>. Chunk \<open>i\<close> holds exactly the
  milliseconds at the positions from \<open>i * L\<close> up to, and without, \<open>min ((i + 1) * L) D\<close>,
  and has that length. The slices are contiguous and do not overlap: the end of chunk \<open>i\<close>
  is the start \<open>(i + 1) * L\<close> of chunk \<open>i + 1\<close>, and the last chunk ends at \<open>D\<close>. Together
  they cover the segment: their concatenation is the segment. The length of the last chunk
  is \<open>D - (N - 1) * L\<close>.
\<close>

theorem calculate_chunks_partition:
  assumes "0 < L"
  shows "\<exists>cs. calculate_chunks xs L = Inr cs
     \<and> int (length cs) = \<lceil>real_of_int (len xs) / real_of_int L\<rceil>
     \<and> (\<forall>i < length cs.
           cs ! i = map (\<lambda>j. xs ! j) [nat (int i * L) ..< nat (min ((int i + 1) * L) (len xs))]
         \<and> len (cs ! i) = min ((int i + 1) * L) (len xs) - int i * L)
     \<and> (\<forall>i. Suc i < length cs \<longrightarrow> min ((int i + 1) * L) (len xs) = int (Suc i) * L)
     \<and> (cs \<noteq> [] \<longrightarrow> min (int (length cs) * L) (len xs) = len xs)
     \<and> concat cs = xs
     \<and> (cs \<noteq> [] \<longrightarrow> len (last cs) = len xs - (int (length cs) - 1) * L)"
proof -
  obtain l where l: "L = int l" "0 < l"
    using assms by (metis zero_less_imp_eq_int)
  define D where "D = length xs"
  define n where "n = D div l + (if D mod l > 0 then 1 else 0)"
  define cs where "cs = map (\<lambda>i. drop (i * l) (take (Suc i * l) xs)) [0..<n]"
  have lenD: "len xs = int D" by (simp add: len_def D_def)
  have "int D div int l = int (D div l)" "int D mod int l = int (D mod l)"
    by (simp_all add: zdiv_int zmod_int)
  then have nn: "num_chunks (len xs) L = Inr (int n)"
    using l by (simp add: num_chunks_def lenD n_def)
  have st: "int i * L = int (i * l)" and en: "(int i + 1) * L = int (Suc i * l)" for i
    by (simp_all add: l algebra_simps)
  have n_ceil: "int n = \<lceil>real_of_int (len xs) / real_of_int L\<rceil>"
    using nn num_chunks_ceiling [OF assms, of "len xs"] by simp
  have dm: "D = D div l * l + D mod l" by simp
  have upper: "D \<le> n * l"
  proof (cases "D mod l > 0")
    case True
    have "D mod l < l" using l by simp
    then have "D < D div l * l + l" using dm by linarith
    then show ?thesis using True by (simp add: n_def)
  next
    case False
    then show ?thesis using dm by (simp add: n_def)
  qed
  have lower: "i * l < D" if "i < n" for i
  proof (cases "D mod l > 0")
    case True
    then have "i \<le> D div l" using that by (simp add: n_def)
    then have "i * l \<le> D div l * l" by simp
    then show ?thesis using True dm by linarith
  next
    case False
    then have "i < D div l" using that by (simp add: n_def)
    then have "i * l < D div l * l" using l by simp
    then show ?thesis using dm by linarith
  qed
  have calc: "calculate_chunks xs L = Inr cs"
  proof -
    have "getitem_slice xs (int i * L) ((int i + 1) * L) = drop (i * l) (take (Suc i * l) xs)" for i
    proof -
      have "0 \<le> int (i * l)" "int (i * l) \<le> int (Suc i * l)"
        by simp_all
      from getitem_slice_nonneg [OF this, of xs]
      show ?thesis unfolding st en nat_int .
    qed
    then show ?thesis
      by (simp add: calculate_chunks_def nn py_range_def cs_def)
  qed
  have len_cs: "length cs = n" by (simp add: cs_def)
  have nth_cs: "cs ! i = drop (i * l) (take (Suc i * l) xs)" if "i < n" for i
    using that by (simp add: cs_def)
  have ends: "min ((int i + 1) * L) (len xs) = int (min (Suc i * l) D)" for i
    unfolding en lenD of_nat_min ..
  have c2: "cs ! i = map (\<lambda>j. xs ! j) [nat (int i * L) ..< nat (min ((int i + 1) * L) (len xs))]
         \<and> len (cs ! i) = min ((int i + 1) * L) (len xs) - int i * L" if "i < length cs" for i
  proof -
    have i: "i < n" using that len_cs by simp
    have "i * l \<le> min (Suc i * l) D" using lower [OF i] by simp
    then have "int (min (Suc i * l) D - i * l) = int (min (Suc i * l) D) - int (i * l)"
      by (simp only: of_nat_diff)
    then show ?thesis
      unfolding nth_cs [OF i] ends st nat_int
      by (simp add: drop_take_nths len_def D_def)
  qed
  have c3: "min ((int i + 1) * L) (len xs) = int (Suc i) * L" if "Suc i < length cs" for i
  proof -
    have "Suc i * l < D" using lower [of "Suc i"] that len_cs by simp
    then have "int (Suc i * l) < int D" by (simp only: of_nat_less_iff)
    moreover have "int (Suc i) * L = int (Suc i * l)" by (simp add: l algebra_simps)
    ultimately show ?thesis unfolding en lenD by simp
  qed
  have c4: "min (int (length cs) * L) (len xs) = len xs"
  proof -
    have "int D \<le> int (n * l)" using upper by (simp only: of_nat_le_iff)
    then show ?thesis unfolding len_cs lenD l by simp
  qed
  have c5: "concat cs = xs"
    unfolding cs_def concat_slices using upper by (simp add: D_def)
  have c6: "len (last cs) = len xs - (int (length cs) - 1) * L" if "cs \<noteq> []"
  proof -
    have n0: "0 < n" using that len_cs by (cases n) auto
    then have i: "n - 1 < length cs" using len_cs by simp
    have la: "last cs = cs ! (n - 1)" using that len_cs by (simp add: last_conv_nth)
    have m: "int (n - 1) = int n - 1" using n0 by simp
    have "len (cs ! (n - 1)) = min ((int (n - 1) + 1) * L) (len xs) - int (n - 1) * L"
      using c2 [OF i] by (rule conjunct2)
    then have "len (last cs) = min (int n * L) (len xs) - (int n - 1) * L"
      unfolding la m by simp
    then show ?thesis using c4 by (simp only: len_cs)
  qed
  have c1: "int (length cs) = \<lceil>real_of_int (len xs) / real_of_int L\<rceil>"
    using n_ceil by (simp only: len_cs)
  show ?thesis
    using calc c1 c2 c3 c4 c5 c6 by blast
qed

theorem calculate_chunks_partition_witness:
  "(0::int) < 2 \<and>
   (\<exists>cs. calculate_chunks [10, 20, 30, 40, 50 :: nat] 2 = Inr cs
      \<and> int (length cs) = 3
      \<and> concat cs = [10, 20, 30, 40, 50]
      \<and> len (last cs) = 1)"
proof -
  have h: "(0::int) < 2" by simp
  have c: "\<lceil>real_of_int (len [10, 20, 30, 40, 50 :: nat]) / real_of_int 2\<rceil> = 3"
    by (simp add: len_def ceiling_divide_eq_div)
  obtain cs where cs: "calculate_chunks [10, 20, 30, 40, 50 :: nat] 2 = Inr cs"
      "int (length cs) = \<lceil>real_of_int (len [10, 20, 30, 40, 50 :: nat]) / real_of_int 2\<rceil>"
      "concat cs = [10, 20, 30, 40, 50]"
      "cs \<noteq> [] \<longrightarrow>
         len (last cs) = len [10, 20, 30, 40, 50 :: nat] - (int (length cs) - 1) * 2"
    using calculate_chunks_partition [OF h, of "[10, 20, 30, 40, 50 :: nat]"] by blast
  have n: "int (length cs) = 3" using cs(2) c by simp
  then have "cs \<noteq> []" by auto
  then have "len (last cs) = 1" using cs(4) n by (simp add: len_def)
  then show ?thesis using cs(1) cs(3) n by simp
qed

section \<open>A chunk length that is not positive\<close>

lemma calculate_chunks_zero: "calculate_chunks xs 0 = Inl ZeroDivisionError"
  by (simp add: calculate_chunks_def num_chunks_def)

lemma calculate_chunks_negative:
  assumes "L < 0"
  shows "calculate_chunks xs L = Inr []"
proof -
  have "len xs div L \<le> 0"
    using assms by (simp add: len_def div_nonneg_neg_le0)
  moreover have "\<not> 0 < len xs mod L"
    using neg_mod_sign [OF assms, of "len xs"] by linarith
  ultimately show ?thesis
    using assms by (simp add: calculate_chunks_def num_chunks_def py_range_def)
qed

text \<open>
  Claim C4, as the code has it. \<^verbatim>\<open>__init__\<close> checks nothing and there is no
  configuration error. A chunk length of zero makes the chunk computation raise
  \<open>ZeroDivisionError\<close>, from the division in the chunk count, before any chunk is
  produced. A negative chunk length raises nothing: the chunk count is not positive and
  the list of chunks is empty.
\<close>

theorem chunk_length_not_validated:
  "calculate_chunks xs (chunk_length_ms (init ip op 0 mw)) = Inl ZeroDivisionError
   \<and> (minutes < 0 \<longrightarrow> calculate_chunks xs (chunk_length_ms (init ip op minutes mw)) = Inr [])"
  by (simp add: init_def calculate_chunks_zero calculate_chunks_negative)

theorem chunk_length_not_validated_witness:
  "calculate_chunks [10, 20, 30 :: nat] (chunk_length_ms (init [''in''] [''out''] 0 3))
     = Inl ZeroDivisionError
   \<and> (- 1 :: int) < 0
   \<and> calculate_chunks [10, 20, 30 :: nat] (chunk_length_ms (init [''in''] [''out''] (- 1) 3))
     = Inr []"
  using chunk_length_not_validated [of "[10, 20, 30 :: nat]" "[''in'']" "[''out'']" 3 "- 1"]
  by simp

text \<open>
  The claim as stated fails for a chunk length of minus one minute: the computation returns
  the empty list of chunks for an audio segment of three milliseconds and raises nothing.
\<close>

theorem negative_chunk_length_counterexample:
  "calculate_chunks [10, 20, 30 :: nat] (chunk_length_ms (init [''in''] [''out''] (- 1) 3))
     = Inr []"
  by (simp add: init_def calculate_chunks_def num_chunks_def py_range_def len_def)

section \<open>Sorting and joining the results\<close>

lemma length_join:
  "length (join sep ts) = sum_list (map length ts) + (length ts - 1) * length sep"
  by (induction sep ts rule: join.induct) simp_all

lemma join_snoc:
  "ts \<noteq> [] \<Longrightarrow> join sep (ts @ [t]) = join sep ts @ sep @ t"
  by (induction sep ts rule: join.induct) simp_all

lemma map_snd_lookup:
  assumes "distinct (map fst rs)" "set ys \<subseteq> set rs"
  shows "map snd ys = map (\<lambda>i. the (map_of rs i)) (map fst ys)"
  using assms(2)
proof (induction ys)
  case Nil
  show ?case by simp
next
  case (Cons y ys)
  have "(fst y, snd y) \<in> set rs" using Cons.prems by simp
  then have "map_of rs (fst y) = Some (snd y)"
    by (rule map_of_is_SomeI [OF assms(1)])
  then show ?case using Cons by simp
qed

lemma sorted_keys_complete:
  assumes "mset (map fst rs) = mset [0..<N]"
  shows "map fst (sort_key fst rs) = [0..<N]"
proof -
  have m: "mset (map fst (sort_key fst rs)) = mset [0..<N]"
    using assms by simp
  have "distinct (map fst (sort_key fst rs))"
    using m by (metis distinct_upt mset_eq_imp_distinct_iff)
  moreover have "set (map fst (sort_key fst rs)) = set [0..<N]"
    using m by (rule mset_eq_setD)
  moreover have "sorted (map fst (sort_key fst rs))" by simp
  ultimately show ?thesis
    by (intro sorted_distinct_set_unique) simp_all
qed

text \<open>
  Claim C5. Let the results hold every index from \<open>0\<close> to \<open>N - 1\<close> exactly once, and let
  \<open>rs'\<close> hold the same results in another order of arrival. Then both orders give the
  same string. The sort puts the indices in ascending order, and the string is the texts
  of the chunks \<open>0, \<dots>, N - 1\<close> joined by newlines: its length is the sum of the lengths of
  the texts plus \<open>N - 1\<close> separators, and it ends with the text of the last chunk, with no
  separator after it. For \<open>N = 0\<close> it is the empty string.
\<close>

theorem combine_order_independent:
  assumes complete: "mset (map fst rs) = mset [0..<N]"
    and perm: "mset rs' = mset rs"
  shows "combine rs' = combine rs
     \<and> map fst (sort_key fst rs) = [0..<N]
     \<and> combine rs = join [CHR 0x0A] (map (\<lambda>i. the (map_of rs i)) [0..<N])
     \<and> length (combine rs) = sum_list (map (length \<circ> snd) rs) + (N - 1)
     \<and> (0 < N \<longrightarrow> (\<exists>front. combine rs = front @ the (map_of rs (N - 1))))
     \<and> (N = 0 \<longrightarrow> combine rs = [])"
proof -
  have d: "distinct (map fst rs)"
    using complete by (metis distinct_upt mset_eq_imp_distinct_iff)
  have d': "distinct (map fst rs')"
    using d perm by (metis mset_map mset_eq_imp_distinct_iff)
  have inj: "inj_on fst (set rs')"
    using d' by (simp add: distinct_map)
  have "sort_key fst rs' = sort_key fst rs"
    by (rule sort_key_inj_key_eq) (simp_all add: perm inj)
  then have c1: "combine rs' = combine rs" by (simp add: combine_def)
  have c2: "map fst (sort_key fst rs) = [0..<N]"
    using complete by (rule sorted_keys_complete)
  have "map snd (sort_key fst rs) = map (\<lambda>i. the (map_of rs i)) (map fst (sort_key fst rs))"
    using d by (rule map_snd_lookup) simp
  then have texts: "map snd (sort_key fst rs) = map (\<lambda>i. the (map_of rs i)) [0..<N]"
    by (simp only: c2)
  then have c3: "combine rs = join [CHR 0x0A] (map (\<lambda>i. the (map_of rs i)) [0..<N])"
    by (simp add: combine_def)
  have len_rs: "length rs = N"
    using complete by (metis length_map size_mset length_upt diff_zero)
  have "sum_list (map length (map snd (sort_key fst rs))) = sum_list (map (length \<circ> snd) rs)"
  proof -
    have "mset (map (length \<circ> snd) (sort_key fst rs)) = mset (map (length \<circ> snd) rs)"
      by simp
    then have "sum_list (map (length \<circ> snd) (sort_key fst rs)) = sum_list (map (length \<circ> snd) rs)"
      by (metis sum_mset_sum_list)
    then show ?thesis by simp
  qed
  then have c4: "length (combine rs) = sum_list (map (length \<circ> snd) rs) + (N - 1)"
    by (simp add: combine_def length_join len_rs)
  have c5: "\<exists>front. combine rs = front @ the (map_of rs (N - 1))" if "0 < N"
  proof (cases "N = 1")
    case True
    then show ?thesis using c3 by simp
  next
    case False
    define M where "M = N - 1"
    have M: "N = Suc M" "0 < M" using that False by (simp_all add: M_def)
    have "map (\<lambda>i. the (map_of rs i)) [0..<M] \<noteq> []" using M by simp
    then show ?thesis using c3 M by (simp add: join_snoc)
  qed
  have c6: "combine rs = []" if "N = 0"
    using c3 that by simp
  show ?thesis using c1 c2 c3 c4 c5 c6 by blast
qed

theorem combine_order_independent_witness:
  "mset (map fst [(2 :: nat, ''C''), (0, ''A''), (1, ''B'')]) = mset [0..<3]
   \<and> mset [(0 :: nat, ''A''), (1, ''B''), (2, ''C'')] = mset [(2, ''C''), (0, ''A''), (1, ''B'')]
   \<and> combine [(0 :: nat, ''A''), (1, ''B''), (2, ''C'')] = combine [(2, ''C''), (0, ''A''), (1, ''B'')]
   \<and> combine [(2, ''C''), (0, ''A''), (1, ''B'')] = ''A'' @ [CHR 0x0A] @ ''B'' @ [CHR 0x0A] @ ''C''"
proof -
  have u: "[0..<3] = [0, 1, 2 :: nat]" by (simp add: upt_rec)
  have a: "mset (map fst [(2 :: nat, ''C''), (0, ''A''), (1, ''B'')]) = mset [0..<3]"
    unfolding u by simp
  have b: "mset [(0 :: nat, ''A''), (1, ''B''), (2, ''C'')] = mset [(2, ''C''), (0, ''A''), (1, ''B'')]"
    by simp
  have "combine [(0 :: nat, ''A''), (1, ''B''), (2, ''C'')] = combine [(2, ''C''), (0, ''A''), (1, ''B'')]"
    "combine [(2 :: nat, ''C''), (0, ''A''), (1, ''B'')]
       = join [CHR 0x0A] (map (\<lambda>i. the (map_of [(2 :: nat, ''C''), (0, ''A''), (1, ''B'')] i)) [0..<3])"
    using combine_order_independent [OF a b] by blast+
  then show ?thesis using a b unfolding u by simp
qed

section \<open>The temporary file of process\_chunk\<close>

lemma finally_cleanup_removes:
  "\<not> unlink_fails env p \<Longrightarrow> files (snd (finally_cleanup env p rw)) p = None"
  by (cases rw) (simp add: finally_cleanup_def log_event_def)

lemma digits_examples: "digits 0 = ''0''" "digits 1 = ''1''" "digits 2 = ''2''" "digits 17 = ''17''"
  by code_simp+

lemma example_paths:
  "joinpath (input_path example_self) ''a.mp3'' = [''in'', ''a.mp3'']"
  "joinpath (input_path example_self) ''clip.XYZ'' = [''in'', ''clip.XYZ'']"
  "output_filepath example_self ''a.mp3'' = [''out'', ''a.txt'']"
  by code_simp+

lemma temp_17:
  "temp_filepath example_self (example_env bad locked) 0 = [''out'', ''temp_chunk_0_17.mp3'']"
  by code_simp

text \<open>
  Claim C7, as the code has it. The \<^verbatim>\<open>finally\<close> clause runs on every way out of
  \<^verbatim>\<open>process_chunk\<close>: after the text was returned, after a failed export and after a
  failure of the service. In each case, provided the deletion itself does not raise, the
  temporary file of the call does not exist in the file system the call leaves, and the
  call returns or raises what its body returned or raised.
\<close>

theorem temp_file_removed:
  assumes "\<not> unlink_fails env (temp_filepath self env i)"
  shows "files (snd (process_chunk self env w chunk i)) (temp_filepath self env i) = None
     \<and> fst (process_chunk self env w chunk i) = fst (try_body self env w chunk i)"
proof
  show "files (snd (process_chunk self env w chunk i)) (temp_filepath self env i) = None"
    unfolding process_chunk_def using assms by (rule finally_cleanup_removes)
next
  show "fst (process_chunk self env w chunk i) = fst (try_body self env w chunk i)"
    using assms
    by (cases "try_body self env w chunk i") (simp add: process_chunk_def finally_cleanup_def)
qed

theorem temp_file_removed_witness:
  "\<not> unlink_fails (example_env 1 False) (temp_filepath example_self (example_env 1 False) 1)
   \<and> files (snd (process_chunk example_self (example_env 1 False)
                 (example_world ''a.mp3'' ''abcde'') [99, 100] 1))
         (temp_filepath example_self (example_env 1 False) 1) = None
   \<and> fst (process_chunk example_self (example_env 1 False)
                 (example_world ''a.mp3'' ''abcde'') [99, 100] 1) = Inl TranscriptionServiceError"
proof -
  have h: "\<not> unlink_fails (example_env 1 False) (temp_filepath example_self (example_env 1 False) 1)"
    by (simp add: example_env_def)
  have "fst (process_chunk example_self (example_env 1 False)
                 (example_world ''a.mp3'' ''abcde'') [99, 100] 1) = Inl TranscriptionServiceError"
    by (simp add: process_chunk_def try_body_def finally_cleanup_def log_event_def
        example_env_def Let_def)
  then show ?thesis
    using h temp_file_removed [OF h, of "example_world ''a.mp3'' ''abcde''" "[99, 100]"] by simp
qed

text \<open>
  The claim as stated fails when the deletion raises: here the service has failed, the
  \<^verbatim>\<open>finally\<close> clause finds the temporary file and cannot delete it, and the file is still
  there when the call is left.
\<close>

theorem temp_file_left_counterexample:
  "fst (try_body example_self (example_env 1 True) (example_world ''a.mp3'' ''abcde'') [99, 100] 1)
     = Inl TranscriptionServiceError
   \<and> files (snd (process_chunk example_self (example_env 1 True)
                  (example_world ''a.mp3'' ''abcde'') [99, 100] 1))
        (temp_filepath example_self (example_env 1 True) 1) = Some ''mp3''"
  by (simp add: process_chunk_def try_body_def finally_cleanup_def log_event_def
        example_env_def Let_def)

text \<open>
  Claim C8, as the code has it. Let the body of \<^verbatim>\<open>process_chunk\<close> raise \<open>e\<close>. When the
  temporary file exists and its deletion raises, the exception of the deletion is the one
  \<^verbatim>\<open>process_chunk\<close> raises, in place of \<open>e\<close>; otherwise \<^verbatim>\<open>process_chunk\<close> raises \<open>e\<close>.
\<close>

theorem cleanup_failure_replaces_error:
  assumes "try_body self env w chunk i = (Inl e, w1)"
  shows "fst (process_chunk self env w chunk i) =
           (if files w1 (temp_filepath self env i) \<noteq> None
               \<and> unlink_fails env (temp_filepath self env i)
            then Inl UnlinkError else Inl e)"
  using assms by (simp add: process_chunk_def finally_cleanup_def)

theorem cleanup_failure_replaces_error_witness:
  "try_body example_self (example_env 0 False) (example_world ''a.mp3'' ''abcde'') [97, 98] 0
     = (Inl TranscriptionServiceError,
        \<lparr>files = [[''in'', ''a.mp3''] \<mapsto> ''abcde'', [''out'', ''temp_chunk_0_17.mp3''] \<mapsto> ''mp3''],
         trace = [Export [''out'', ''temp_chunk_0_17.mp3''], Transcribe 0]\<rparr>)
   \<and> fst (process_chunk example_self (example_env 0 False) (example_world ''a.mp3'' ''abcde'') [97, 98] 0)
     = Inl TranscriptionServiceError"
proof -
  have b: "try_body example_self (example_env 0 False) (example_world ''a.mp3'' ''abcde'') [97, 98] 0
     = (Inl TranscriptionServiceError,
        \<lparr>files = [[''in'', ''a.mp3''] \<mapsto> ''abcde'', [''out'', ''temp_chunk_0_17.mp3''] \<mapsto> ''mp3''],
         trace = [Export [''out'', ''temp_chunk_0_17.mp3''], Transcribe 0]\<rparr>)"
    unfolding try_body_def temp_17
    by (simp add: log_event_def example_env_def example_world_def Let_def)
  show ?thesis
    using b cleanup_failure_replaces_error [OF b] by (simp add: example_env_def)
qed

text \<open>
  The claim as stated fails when the service has failed and the deletion fails too: the
  body raises \<open>TranscriptionServiceError\<close> and the call raises \<open>UnlinkError\<close>.
\<close>

theorem cleanup_masks_error_counterexample:
  "fst (try_body example_self (example_env 0 True) (example_world ''a.mp3'' ''abcde'') [97, 98] 0)
     = Inl TranscriptionServiceError
   \<and> fst (process_chunk example_self (example_env 0 True) (example_world ''a.mp3'' ''abcde'') [97, 98] 0)
     = Inl UnlinkError"
  by (simp add: process_chunk_def try_body_def finally_cleanup_def log_event_def
        example_env_def Let_def)

section \<open>Validation of the input path\<close>

lemma suffix_examples:
  "lower (suffix [''in'', ''clip.XYZ'']) = ''.xyz''"
  "lower (suffix [''in'', ''a.mp3'']) = ''.mp3''"
  "stem [''in'', ''a.mp3''] = ''a''"
  by code_simp+

text \<open>
  Claim C6. \<^verbatim>\<open>validate_audio_file\<close> first tests that the path exists and raises
  \<open>FileNotFoundError\<close> when it does not; for an existing path it then compares the
  lower-cased suffix with the supported ones and raises \<open>ValueError\<close> when it is none of
  them. In both cases \<^verbatim>\<open>transcribe_file\<close> raises that exception and leaves the world as it
  found it: the decoder was not called, nothing was exported and the service was not called.
\<close>

theorem validation_before_decode:
  "(files w (joinpath (input_path self) nm) = None \<longrightarrow>
      validate_audio_file w (joinpath (input_path self) nm) = Inl FileNotFoundError
      \<and> transcribe_file self env order w nm = (Inl FileNotFoundError, w))
   \<and> (files w (joinpath (input_path self) nm) \<noteq> None
        \<and> lower (suffix (joinpath (input_path self) nm)) \<notin> supported_formats \<longrightarrow>
      validate_audio_file w (joinpath (input_path self) nm) = Inl ValueError
      \<and> transcribe_file self env order w nm = (Inl ValueError, w))"
  by (simp add: transcribe_file_def validate_audio_file_def Let_def)

theorem validation_before_decode_witness:
  "files (example_world ''clip.XYZ'' ''abcde'') (joinpath (input_path example_self) ''a.mp3'') = None
   \<and> transcribe_file example_self (example_env 9 False) [0, 1, 2]
        (example_world ''clip.XYZ'' ''abcde'') ''a.mp3''
      = (Inl FileNotFoundError, example_world ''clip.XYZ'' ''abcde'')
   \<and> files (example_world ''clip.XYZ'' ''abcde'') (joinpath (input_path example_self) ''clip.XYZ'') \<noteq> None
   \<and> lower (suffix (joinpath (input_path example_self) ''clip.XYZ'')) \<notin> supported_formats
   \<and> transcribe_file example_self (example_env 9 False) [0, 1, 2]
        (example_world ''clip.XYZ'' ''abcde'') ''clip.XYZ''
      = (Inl ValueError, example_world ''clip.XYZ'' ''abcde'')"
proof -
  have a: "files (example_world ''clip.XYZ'' ''abcde'') (joinpath (input_path example_self) ''a.mp3'') = None"
    by (simp add: example_world_def example_paths)
  have b: "files (example_world ''clip.XYZ'' ''abcde'') (joinpath (input_path example_self) ''clip.XYZ'') \<noteq> None"
    by (simp add: example_world_def example_paths)
  have c: "lower (suffix (joinpath (input_path example_self) ''clip.XYZ'')) \<notin> supported_formats"
    by (simp add: example_paths suffix_examples supported_formats_def)
  show ?thesis
    using a b c
      validation_before_decode [of "example_world ''clip.XYZ'' ''abcde''" example_self "''a.mp3''"
        "example_env 9 False" "[0, 1, 2]"]
      validation_before_decode [of "example_world ''clip.XYZ'' ''abcde''" example_self "''clip.XYZ''"
        "example_env 9 False" "[0, 1, 2]"]
    by simp
qed

section \<open>An input of duration zero\<close>

lemma calculate_chunks_empty: "L \<noteq> 0 \<Longrightarrow> calculate_chunks [] L = Inr []"
  by (simp add: calculate_chunks_def num_chunks_def len_def py_range_def)

text \<open>
  Claim C10, as the code has it. Let the input file exist with a supported suffix and
  decode to an audio segment of duration zero, under a chunk length other than zero and a
  positive worker count. Then \<^verbatim>\<open>transcribe_file\<close> returns the output path, and the only calls it makes are
  the decoding of the input and the writing of the output file, whose content is the empty
  string: there is no export and no call of the transcription service.
\<close>

theorem empty_audio_writes_empty_file:
  assumes "files w (joinpath (input_path self) nm) = Some content"
    and "lower (suffix (joinpath (input_path self) nm)) \<in> supported_formats"
    and "from_file env content = Inr []"
    and "chunk_length_ms self \<noteq> 0"
    and "0 < max_workers self"
  shows "transcribe_file self env order w nm =
           (Inr (output_filepath self nm),
            w\<lparr>files := (files w)(output_filepath self nm \<mapsto> []),
              trace := trace w @ [Decode (joinpath (input_path self) nm),
                                  Write (output_filepath self nm)]\<rparr>)"
  using assms
  by (simp add: transcribe_file_def validate_audio_file_def load_audio_def Let_def
      calculate_chunks_empty as_completed_def combine_def log_event_def)

theorem empty_audio_writes_empty_file_witness:
  "files (example_world ''a.mp3'' []) (joinpath (input_path example_self) ''a.mp3'') = Some []
   \<and> lower (suffix (joinpath (input_path example_self) ''a.mp3'')) \<in> supported_formats
   \<and> from_file (example_env 9 False) [] = Inr []
   \<and> chunk_length_ms example_self \<noteq> 0
   \<and> 0 < max_workers example_self
   \<and> transcribe_file example_self (example_env 9 False) [] (example_world ''a.mp3'' []) ''a.mp3''
      = (Inr [''out'', ''a.txt''],
         \<lparr>files = [[''in'', ''a.mp3''] \<mapsto> [], [''out'', ''a.txt''] \<mapsto> []],
          trace = [Decode [''in'', ''a.mp3''], Write [''out'', ''a.txt'']]\<rparr>)"
proof -
  have a: "files (example_world ''a.mp3'' []) (joinpath (input_path example_self) ''a.mp3'') = Some []"
    by (simp add: example_world_def example_paths)
  have b: "lower (suffix (joinpath (input_path example_self) ''a.mp3'')) \<in> supported_formats"
    by (simp add: example_paths suffix_examples supported_formats_def)
  have c: "from_file (example_env 9 False) [] = Inr []"
    by (simp add: example_env_def)
  have d: "chunk_length_ms example_self \<noteq> 0" and e: "0 < max_workers example_self"
    by (simp_all add: example_self_def)
  have o: "output_filepath example_self ''a.mp3'' = [''out'', ''a.txt'']"
    by (rule example_paths)
  have p: "joinpath (input_path example_self) ''a.mp3'' = [''in'', ''a.mp3'']"
    by (rule example_paths)
  note t = empty_audio_writes_empty_file [OF a b c d e, of "[]", unfolded o p]
  show ?thesis
    using a b c d e t unfolding p by (simp add: example_world_def)
qed

text \<open>
  The claim as stated fails for a chunk length of zero: the input decodes to an audio
  segment of duration zero, the chunk count divides by zero, and \<^verbatim>\<open>transcribe_file\<close>
  raises without writing the output file.
\<close>

theorem zero_chunk_length_counterexample:
  "fst (load_audio (example_env 9 False) (example_world ''a.mp3'' [])
          (joinpath (input_path (init [''in''] [''out''] 0 3)) ''a.mp3'')) = Inr []
   \<and> fst (transcribe_file (init [''in''] [''out''] 0 3) (example_env 9 False) []
          (example_world ''a.mp3'' []) ''a.mp3'') = Inl ZeroDivisionError
   \<and> files (snd (transcribe_file (init [''in''] [''out''] 0 3) (example_env 9 False) []
          (example_world ''a.mp3'' []) ''a.mp3''))
        (output_filepath (init [''in''] [''out''] 0 3) ''a.mp3'') = None"
  by code_simp

section \<open>The pool and the collection of the results\<close>

text \<open>
  A call of \<^verbatim>\<open>process_chunk\<close> touches no path but its temporary file and writes no output
  file; whether it raises does not depend on the world it starts in.
\<close>

lemma try_body_files_other:
  "q \<noteq> temp_filepath self env i \<Longrightarrow> files (snd (try_body self env w c i)) q = files w q"
  by (simp add: try_body_def Let_def log_event_def split: export_result.splits option.splits)

lemma finally_cleanup_files_other:
  "q \<noteq> p \<Longrightarrow> files (snd (finally_cleanup env p rw)) q = files (snd rw) q"
  by (cases rw) (simp add: finally_cleanup_def log_event_def)

lemma process_chunk_files_other:
  "q \<noteq> temp_filepath self env i \<Longrightarrow> files (snd (process_chunk self env w c i)) q = files w q"
  by (simp add: process_chunk_def finally_cleanup_files_other try_body_files_other)

lemma try_body_trace:
  "\<exists>evs. trace (snd (try_body self env w c i)) = trace w @ evs \<and> (\<forall>q. Write q \<notin> set evs)"
  by (simp add: try_body_def Let_def log_event_def split: export_result.splits option.splits)

lemma finally_cleanup_trace:
  "\<exists>evs. trace (snd (finally_cleanup env p rw)) = trace (snd rw) @ evs \<and> (\<forall>q. Write q \<notin> set evs)"
  by (cases rw) (simp add: finally_cleanup_def log_event_def)

lemma process_chunk_trace:
  "\<exists>evs. trace (snd (process_chunk self env w c i)) = trace w @ evs \<and> (\<forall>q. Write q \<notin> set evs)"
proof -
  obtain e1 where e1: "trace (snd (try_body self env w c i)) = trace w @ e1" "\<forall>q. Write q \<notin> set e1"
    using try_body_trace by blast
  obtain e2 where e2: "trace (snd (process_chunk self env w c i))
      = trace (snd (try_body self env w c i)) @ e2" "\<forall>q. Write q \<notin> set e2"
    unfolding process_chunk_def using finally_cleanup_trace by blast
  have "trace (snd (process_chunk self env w c i)) = trace w @ (e1 @ e2)"
    using e1(1) e2(1) by simp
  moreover have "\<forall>q. Write q \<notin> set (e1 @ e2)" using e1(2) e2(2) by simp
  ultimately show ?thesis by blast
qed

lemma process_chunk_raises_any_world:
  "isl (fst (process_chunk self env w c i)) = isl (fst (process_chunk self env w' c i))"
  by (simp add: process_chunk_def try_body_def finally_cleanup_def Let_def log_event_def
      split: export_result.splits option.splits)

lemma split_nonempty: "split sep s \<noteq> []"
  by (induction s) (auto split: list.splits)

lemma last_split:
  "s \<noteq> [] \<Longrightarrow> last s \<noteq> sep \<Longrightarrow>
     last (split sep s) \<noteq> [] \<and> last (last (split sep s)) = last s"
proof (induction s)
  case Nil
  then show ?case by simp
next
  case (Cons x xs)
  show ?case
  proof (cases "xs = []")
    case True
    then show ?thesis using Cons.prems by simp
  next
    case False
    then have l: "last xs \<noteq> sep" using Cons.prems by simp
    have ih: "last (split sep xs) \<noteq> [] \<and> last (last (split sep xs)) = last xs"
      using Cons.IH [OF False l] .
    obtain piece pieces where sp: "split sep xs = piece # pieces"
      using split_nonempty [of sep xs] by (cases "split sep xs") auto
    show ?thesis
      using ih False sp by (cases "pieces = []") auto
  qed
qed

lemma last_filter_keep: "xs \<noteq> [] \<Longrightarrow> P (last xs) \<Longrightarrow> filter P xs \<noteq> [] \<and> last (filter P xs) = last xs"
  by (induction xs) (auto split: if_splits)

lemma last_parts:
  assumes "s \<noteq> []" "last s \<noteq> CHR ''/''" "last s \<noteq> CHR ''.''"
  shows "parts s \<noteq> [] \<and> last (last (parts s)) = last s"
proof -
  have a: "last (split (CHR ''/'') s) \<noteq> []" "last (last (split (CHR ''/'') s)) = last s"
    using last_split [OF assms(1) assms(2)] by simp_all
  have "last (split (CHR ''/'') s) \<noteq> ''.''"
    using a(2) assms(3) by auto
  then have "filter (\<lambda>x. x \<noteq> [] \<and> x \<noteq> ''.'') (split (CHR ''/'') s) \<noteq> []
      \<and> last (filter (\<lambda>x. x \<noteq> [] \<and> x \<noteq> ''.'') (split (CHR ''/'') s)) = last (split (CHR ''/'') s)"
    using a(1) split_nonempty [of "CHR ''/''" s]
    by (intro last_filter_keep) simp_all
  then show ?thesis using a(2) by (simp add: parts_def)
qed

lemma last_joinpath:
  assumes "s \<noteq> []" "last s \<noteq> CHR ''/''" "last s \<noteq> CHR ''.''"
  shows "last (last (joinpath p s)) = last s"
  using last_parts [OF assms] by (simp add: joinpath_def)

lemma temp_filepath_not_output:
  "temp_filepath self env i \<noteq> output_filepath self nm"
proof
  assume eq: "temp_filepath self env i = output_filepath self nm"
  have "last (last (temp_filepath self env i)) = CHR ''3''"
    unfolding temp_filepath_def
    by (subst last_joinpath) (simp_all add: temp_filename_def)
  moreover have "last (last (output_filepath self nm)) = CHR ''t''"
    unfolding output_filepath_def
    by (subst last_joinpath) simp_all
  ultimately show False using eq by simp
qed

lemma run_pool_files_other:
  "(\<And>i. q \<noteq> temp_filepath self env i) \<Longrightarrow> files (snd (run_pool self env w tasks)) q = files w q"
proof (induction tasks arbitrary: w)
  case Nil
  show ?case by simp
next
  case (Cons t tasks)
  obtain i c where t: "t = (i, c)" by (cases t)
  obtain r w1 where p: "process_chunk self env w c i = (r, w1)" by (cases "process_chunk self env w c i")
  obtain rs w2 where q: "run_pool self env w1 tasks = (rs, w2)" by (cases "run_pool self env w1 tasks")
  have "files w1 q = files w q"
    using process_chunk_files_other [of q self env i w c] Cons.prems p by simp
  moreover have "files w2 q = files w1 q"
    using Cons.IH [of w1] Cons.prems q by simp
  ultimately show ?case by (simp add: t p q)
qed

lemma run_pool_trace:
  "\<exists>evs. trace (snd (run_pool self env w tasks)) = trace w @ evs \<and> (\<forall>q. Write q \<notin> set evs)"
proof (induction tasks arbitrary: w)
  case Nil
  show ?case by simp
next
  case (Cons t tasks)
  obtain i c where t: "t = (i, c)" by (cases t)
  obtain r w1 where p: "process_chunk self env w c i = (r, w1)" by (cases "process_chunk self env w c i")
  obtain rs w2 where q: "run_pool self env w1 tasks = (rs, w2)" by (cases "run_pool self env w1 tasks")
  obtain e1 where e1: "trace w1 = trace w @ e1" "\<forall>q. Write q \<notin> set e1"
    using process_chunk_trace [of self env w c i] p by auto
  obtain e2 where e2: "trace w2 = trace w1 @ e2" "\<forall>q. Write q \<notin> set e2"
    using Cons.IH [of w1] q by auto
  have "trace w2 = trace w @ (e1 @ e2)" using e1(1) e2(1) by simp
  moreover have "\<forall>q. Write q \<notin> set (e1 @ e2)" using e1(2) e2(2) by simp
  ultimately have "\<exists>evs. trace w2 = trace w @ evs \<and> (\<forall>q. Write q \<notin> set evs)" by blast
  then show ?case by (simp add: t p q)
qed

lemma run_pool_indices:
  "map fst (fst (run_pool self env w tasks)) = map fst tasks"
proof (induction tasks arbitrary: w)
  case Nil
  show ?case by simp
next
  case (Cons t tasks)
  obtain i c where t: "t = (i, c)" by (cases t)
  obtain r w1 where p: "process_chunk self env w c i = (r, w1)" by (cases "process_chunk self env w c i")
  obtain rs w2 where q: "run_pool self env w1 tasks = (rs, w2)" by (cases "run_pool self env w1 tasks")
  show ?case using Cons.IH [of w1] by (simp add: t p q)
qed

lemma run_pool_failure:
  assumes "(k, c) \<in> set tasks" and "isl (fst (process_chunk self env wk c k))"
  shows "\<exists>r. (k, r) \<in> set (fst (run_pool self env w tasks)) \<and> isl r"
  using assms(1)
proof (induction tasks arbitrary: w)
  case Nil
  then show ?case by simp
next
  case (Cons t tasks)
  obtain i c' where t: "t = (i, c')" by (cases t)
  obtain r w1 where p: "process_chunk self env w c' i = (r, w1)" by (cases "process_chunk self env w c' i")
  obtain rs w2 where q: "run_pool self env w1 tasks = (rs, w2)" by (cases "run_pool self env w1 tasks")
  show ?case
  proof (cases "(k, c) = t")
    case True
    then have "isl r"
      using assms(2) p t process_chunk_raises_any_world [of self env w c k wk] by simp
    then show ?thesis using True t by (auto simp add: p q)
  next
    case False
    then have "(k, c) \<in> set tasks" using Cons.prems by simp
    then obtain r' where "(k, r') \<in> set (fst (run_pool self env w1 tasks))" "isl r'"
      using Cons.IH by blast
    then show ?thesis using q by (auto simp add: t p)
  qed
qed

lemma collect_failure:
  "(k, r) \<in> set results \<Longrightarrow> isl r \<Longrightarrow> isl (collect results acc)"
  by (induction results acc rule: collect.induct) auto

lemma collect_indices:
  "collect results acc = Inr ts \<Longrightarrow> map fst ts = map fst acc @ map fst results"
  by (induction results acc arbitrary: ts rule: collect.induct) auto

lemma as_completed_indices:
  assumes "mset order = mset [0..<length chunks]"
  shows "map fst (as_completed order chunks) = order"
proof -
  have "set order = {0..<length chunks}"
    using mset_eq_setD [OF assms] by simp
  then have "filter (\<lambda>k. k < length chunks) order = order"
    by (simp add: filter_id_conv)
  then show ?thesis by (simp add: as_completed_def comp_def)
qed

lemma as_completed_member:
  assumes "mset order = mset [0..<length chunks]" and "k < length chunks"
  shows "(k, chunks ! k) \<in> set (as_completed order chunks)"
proof -
  have "set order = {0..<length chunks}"
    using mset_eq_setD [OF assms(1)] by simp
  then have "k \<in> set order" using assms(2) by simp
  then show ?thesis using assms(2) by (auto simp add: as_completed_def)
qed

lemma example_load:
  "load_audio (example_env bad locked) (example_world ''a.mp3'' ''abcde'')
        (joinpath (input_path example_self) ''a.mp3'')
      = (Inr [97, 98, 99, 100, 101],
         log_event (Decode [''in'', ''a.mp3'']) (example_world ''a.mp3'' ''abcde''))"
  by (simp add: load_audio_def example_env_def example_world_def example_paths)

lemma example_chunks:
  "calculate_chunks [97, 98, 99, 100, 101 :: nat] (chunk_length_ms example_self)
      = Inr [[97, 98], [99, 100], [101]]"
  by code_simp

lemma example_order:
  "mset [2, 0, 1] = mset [0..<length [[97, 98], [99, 100], [101 :: nat]]]"
proof -
  have "[0..<3] = [0, 1, 2 :: nat]" by (simp add: upt_rec)
  then show ?thesis by simp
qed

lemma example_collect:
  "collect (fst (run_pool example_self (example_env 9 False) (example_world ''a.mp3'' ''abcde'')
     (as_completed [2, 0, 1] [[97, 98], [99, 100], [101]]))) []
   = Inr [(2, ''2''), (0, ''0''), (1, ''1'')]"
  by code_simp

text \<open>
  Claim C2. Let the input be loaded and cut into the chunks \<open>chunks\<close>, let the calls
  complete in the order \<open>order\<close>, a permutation of the chunk indices, and let the call on
  chunk \<open>k\<close> raise. Then \<^verbatim>\<open>transcribe_file\<close> raises, whatever the other calls did and
  wherever \<open>k\<close> stands in the order of completion. The output path holds what it held
  before, and no output file was written.
\<close>

theorem fail_fast:
  assumes order: "mset order = mset [0..<length chunks]"
    and load: "load_audio env w (joinpath (input_path self) nm) = (Inr audio, w1)"
    and chunks: "calculate_chunks audio (chunk_length_ms self) = Inr chunks"
    and k: "k < length chunks"
    and fails: "isl (fst (process_chunk self env wk (chunks ! k) k))"
  shows "isl (fst (transcribe_file self env order w nm))
     \<and> files (snd (transcribe_file self env order w nm)) (output_filepath self nm)
         = files w (output_filepath self nm)
     \<and> (\<exists>evs. trace (snd (transcribe_file self env order w nm)) = trace w @ evs
           \<and> (\<forall>q. Write q \<notin> set evs))"
proof (cases "validate_audio_file w (joinpath (input_path self) nm)")
  case (Inl e)
  then show ?thesis by (simp add: transcribe_file_def Let_def)
next
  case (Inr b)
  have w1: "files w1 = files w" "trace w1 = trace w @ [Decode (joinpath (input_path self) nm)]"
    using load by (auto simp add: load_audio_def log_event_def split: option.splits)
  show ?thesis
  proof (cases "max_workers self \<le> 0")
    case True
    then show ?thesis
      using Inr load chunks w1 by (simp add: transcribe_file_def Let_def)
  next
    case False
    obtain results w2 where run: "run_pool self env w1 (as_completed order chunks) = (results, w2)"
      by (cases "run_pool self env w1 (as_completed order chunks)")
    obtain r where "(k, r) \<in> set results" "isl r"
      using run_pool_failure [OF as_completed_member [OF order k] fails, of w1] run by auto
    then have "isl (collect results [])" by (rule collect_failure)
    then obtain e where e: "collect results [] = Inl e" by (cases "collect results []") auto
    have res: "transcribe_file self env order w nm = (Inl e, w2)"
      using Inr load chunks False run e by (simp add: transcribe_file_def Let_def)
    have "files w2 (output_filepath self nm) = files w1 (output_filepath self nm)"
      using run_pool_files_other [of "output_filepath self nm" self env w1 "as_completed order chunks"]
        temp_filepath_not_output [of self env _ nm] run by (simp add: eq_commute)
    then have f: "files w2 (output_filepath self nm) = files w (output_filepath self nm)"
      using w1(1) by simp
    obtain evs where evs: "trace w2 = trace w1 @ evs" "\<forall>q. Write q \<notin> set evs"
      using run_pool_trace [of self env w1 "as_completed order chunks"] run by auto
    have "trace w2 = trace w @ (Decode (joinpath (input_path self) nm) # evs)"
      using evs(1) w1(2) by simp
    moreover have "\<forall>q. Write q \<notin> set (Decode (joinpath (input_path self) nm) # evs)"
      using evs(2) by simp
    ultimately have "\<exists>evs. trace w2 = trace w @ evs \<and> (\<forall>q. Write q \<notin> set evs)" by blast
    then show ?thesis using res f by simp
  qed
qed

theorem fail_fast_witness:
  "mset [2, 0, 1] = mset [0..<length [[97, 98], [99, 100], [101 :: nat]]]
   \<and> load_audio (example_env 1 False) (example_world ''a.mp3'' ''abcde'')
        (joinpath (input_path example_self) ''a.mp3'')
      = (Inr [97, 98, 99, 100, 101],
         log_event (Decode [''in'', ''a.mp3'']) (example_world ''a.mp3'' ''abcde''))
   \<and> calculate_chunks [97, 98, 99, 100, 101 :: nat] (chunk_length_ms example_self)
      = Inr [[97, 98], [99, 100], [101]]
   \<and> (1 :: nat) < length [[97, 98], [99, 100], [101 :: nat]]
   \<and> isl (fst (process_chunk example_self (example_env 1 False)
                  (example_world ''a.mp3'' ''abcde'') ([[97, 98], [99, 100], [101]] ! 1) 1))
   \<and> isl (fst (transcribe_file example_self (example_env 1 False) [2, 0, 1]
                  (example_world ''a.mp3'' ''abcde'') ''a.mp3''))
   \<and> files (snd (transcribe_file example_self (example_env 1 False) [2, 0, 1]
                  (example_world ''a.mp3'' ''abcde'') ''a.mp3''))
        (output_filepath example_self ''a.mp3'') = None"
proof -
  have k: "(1 :: nat) < length [[97, 98], [99, 100], [101 :: nat]]" by simp
  have f: "isl (fst (process_chunk example_self (example_env 1 False)
                  (example_world ''a.mp3'' ''abcde'') ([[97, 98], [99, 100], [101]] ! 1) 1))"
    by (simp add: process_chunk_def try_body_def finally_cleanup_def log_event_def
        example_env_def Let_def)
  have o: "files (example_world ''a.mp3'' ''abcde'') (output_filepath example_self ''a.mp3'') = None"
    by (simp add: example_world_def example_paths)
  note t = fail_fast [OF example_order example_load example_chunks k f]
  have "isl (fst (transcribe_file example_self (example_env 1 False) [2, 0, 1]
                  (example_world ''a.mp3'' ''abcde'') ''a.mp3''))"
    using t by (rule conjunct1)
  moreover have "files (snd (transcribe_file example_self (example_env 1 False) [2, 0, 1]
                  (example_world ''a.mp3'' ''abcde'') ''a.mp3''))
        (output_filepath example_self ''a.mp3'') = None"
    using t o by simp
  ultimately show ?thesis
    using example_order example_load example_chunks k f by blast
qed

lemma join_concat:
  "join sep ts = (if ts = [] then [] else concat (map (\<lambda>t. t @ sep) (butlast ts)) @ last ts)"
  by (induction sep ts rule: join.induct) simp_all

lemma combine_sorted_texts:
  "\<exists>ys. mset ys = mset rs
      \<and> sorted (map fst ys)
      \<and> (\<forall>k. filter (\<lambda>y. fst y = k) ys = filter (\<lambda>y. fst y = k) rs)
      \<and> combine rs =
          (if ys = [] then []
           else concat (map (\<lambda>y. snd y @ [CHR 0x0A]) (butlast ys)) @ snd (last ys))"
proof -
  define ys where "ys = sort_key fst rs"
  have a: "mset ys = mset rs" by (simp add: ys_def)
  have b: "sorted (map fst ys)" by (simp add: ys_def)
  have c: "\<forall>k. filter (\<lambda>y. fst y = k) ys = filter (\<lambda>y. fst y = k) rs"
    by (simp add: ys_def sort_key_stable)
  have d: "combine rs =
          (if ys = [] then []
           else concat (map (\<lambda>y. snd y @ [CHR 0x0A]) (butlast ys)) @ snd (last ys))"
  proof (cases "ys = []")
    case True
    then show ?thesis by (simp add: combine_def ys_def [symmetric])
  next
    case False
    have "combine rs = join [CHR 0x0A] (map snd ys)"
      by (simp add: combine_def ys_def)
    also have "\<dots> = concat (map (\<lambda>t. t @ [CHR 0x0A]) (butlast (map snd ys))) @ last (map snd ys)"
      using False by (simp add: join_concat)
    also have "\<dots> = concat (map (\<lambda>y. snd y @ [CHR 0x0A]) (butlast ys)) @ snd (last ys)"
      using False by (simp add: map_butlast [symmetric] last_map comp_def)
    finally show ?thesis using False by simp
  qed
  show ?thesis using a b c d by blast
qed

text \<open>
  Claim C3, as the code has it. The sorting and joining of lines 208--210 checks nothing
  and raises nothing. For every collection of results \<open>rs\<close>, complete or not, the string
  it returns is made of the results present: they are put in ascending order of index,
  results of equal index keeping their order of arrival, and their texts follow each other
  with one newline between two of them and none after the last. Within
  \<^verbatim>\<open>transcribe_file\<close> the collection that reaches these lines is complete: when the loop
  over the completed calls has raised nothing, the indices collected are the completion
  order, hence every chunk index exactly once.
\<close>

theorem reassembly_input_complete:
  assumes "mset order = mset [0..<length chunks]"
    and "run_pool self env w (as_completed order chunks) = (results, w')"
    and "collect results [] = Inr transcriptions"
  shows "map fst transcriptions = order
     \<and> mset (map fst transcriptions) = mset [0..<length chunks]
     \<and> (\<exists>ys. mset ys = mset rs
          \<and> sorted (map fst ys)
          \<and> (\<forall>k. filter (\<lambda>y. fst y = k) ys = filter (\<lambda>y. fst y = k) rs)
          \<and> combine rs =
              (if ys = [] then []
               else concat (map (\<lambda>y. snd y @ [CHR 0x0A]) (butlast ys)) @ snd (last ys)))"
proof -
  have "map fst results = map fst (as_completed order chunks)"
    using run_pool_indices [of self env w "as_completed order chunks"] assms(2) by simp
  then have "map fst results = order"
    using as_completed_indices [OF assms(1)] by simp
  then have a: "map fst transcriptions = order"
    using collect_indices [OF assms(3)] by simp
  then have b: "mset (map fst transcriptions) = mset [0..<length chunks]"
    using assms(1) by simp
  show ?thesis using a b combine_sorted_texts [of rs] by blast
qed

theorem reassembly_input_complete_witness:
  "mset [2, 0, 1] = mset [0..<length [[97, 98], [99, 100], [101 :: nat]]]
   \<and> collect (fst (run_pool example_self (example_env 9 False) (example_world ''a.mp3'' ''abcde'')
        (as_completed [2, 0, 1] [[97, 98], [99, 100], [101]]))) []
      = Inr [(2, ''2''), (0, ''0''), (1, ''1'')]
   \<and> map fst [(2 :: nat, ''2''), (0, ''0''), (1, ''1'')] = [2, 0, 1]
   \<and> (\<exists>ys. mset ys = mset [(2 :: nat, ''C''), (0, ''A'')]
          \<and> sorted (map fst ys)
          \<and> combine [(2, ''C''), (0, ''A'')] =
              (if ys = [] then []
               else concat (map (\<lambda>y. snd y @ [CHR 0x0A]) (butlast ys)) @ snd (last ys)))"
proof -
  have r: "run_pool example_self (example_env 9 False) (example_world ''a.mp3'' ''abcde'')
        (as_completed [2, 0, 1] [[97, 98], [99, 100], [101]])
     = (fst (run_pool example_self (example_env 9 False) (example_world ''a.mp3'' ''abcde'')
          (as_completed [2, 0, 1] [[97, 98], [99, 100], [101]])),
        snd (run_pool example_self (example_env 9 False) (example_world ''a.mp3'' ''abcde'')
          (as_completed [2, 0, 1] [[97, 98], [99, 100], [101]])))"
    by simp
  note t = reassembly_input_complete [OF example_order r example_collect,
      of "[(2 :: nat, ''C''), (0, ''A'')]"]
  have "map fst [(2 :: nat, ''2''), (0, ''0''), (1, ''1'')] = [2, 0, 1]"
    using t by (rule conjunct1)
  moreover have "\<exists>ys. mset ys = mset [(2 :: nat, ''C''), (0, ''A'')]
          \<and> sorted (map fst ys)
          \<and> combine [(2, ''C''), (0, ''A'')] =
              (if ys = [] then []
               else concat (map (\<lambda>y. snd y @ [CHR 0x0A]) (butlast ys)) @ snd (last ys))"
    using t by blast
  ultimately show ?thesis
    using example_order example_collect by blast
qed

text \<open>
  The claim as stated fails for a collection with the indices \<open>0\<close> and \<open>2\<close>, where index
  \<open>1\<close> is missing: the two texts are joined and nothing is raised.
\<close>

theorem combine_gap_counterexample:
  "1 \<notin> fst ` set [(0 :: nat, ''A''), (2, ''C'')]
   \<and> combine [(0, ''A''), (2, ''C'')] = ''A'' @ [CHR 0x0A] @ ''C''"
  by (simp add: combine_def)

end
